theory Spec2Isabelle
  imports Main "HOL-Library.Sublist"
begin

section \<open>Results of JavaScript evaluation\<close>

text \<open>
  A JavaScript call either returns a value or throws. The two exceptions that the
  modelled functions can raise are the \<^verbatim>\<open>SyntaxError\<close> of the \<^verbatim>\<open>RegExp\<close> constructor and
  the \<^verbatim>\<open>TypeError\<close> of the \<^verbatim>\<open>in\<close> operator on a non-object.

  The third outcome, \<open>Unmodelled\<close>, is not a behaviour of the program. It marks the
  locales whose pattern source uses regular-expression syntax outside the fragment
  embedded below. On such a locale the program builds its \<^verbatim>\<open>RegExp\<close>, or throws, and
  goes on; the model does not compute what it returns and says nothing about it. A
  statement below that is about a present locale restricts the locale in so many
  words, or speaks of a call for which the model has \<open>Returned\<close> a string, which it has
  inside the fragment only.
\<close>

datatype error = SyntaxError | TypeError

datatype 'a outcome = Returned 'a | Thrown error | Unmodelled

section \<open>The regular expressions of \<^verbatim>\<open>getFSRoute\<close>\<close>

text \<open>
  Strings are lists of code units, and \<open>char\<close> stands for a code unit; of the four
  line terminators only line feed and carriage return are characters of that type.
  Both patterns of \<^verbatim>\<open>getFSRoute\<close> have the shape
  \<^verbatim>\<open>a1 ... an (/|$)\<close>: a sequence of atoms that each consume one code unit, followed by the
  capturing group \<^verbatim>\<open>(/|$)\<close>. An atom is a pattern character, which matches itself, or the
  dot, which without the \<^verbatim>\<open>s\<close> flag matches every code unit except a line terminator.
\<close>

datatype atom = Lit char | AnyChar

definition lineTerminator :: "char \<Rightarrow> bool" where
  "lineTerminator c \<longleftrightarrow> c = CHR 0x0A \<or> c = CHR 0x0D"

fun atom_matches :: "atom \<Rightarrow> char \<Rightarrow> bool" where
  "atom_matches (Lit c) x \<longleftrightarrow> x = c"
| "atom_matches AnyChar x \<longleftrightarrow> \<not> lineTerminator x"

text \<open>\<open>match_atoms p s\<close> consumes the atoms at the start of \<open>s\<close> and returns what follows.\<close>

fun match_atoms :: "atom list \<Rightarrow> string \<Rightarrow> string option" where
  "match_atoms [] s = Some s"
| "match_atoms (a # as) [] = None"
| "match_atoms (a # as) (x # xs) = (if atom_matches a x then match_atoms as xs else None)"

text \<open>
  The group \<^verbatim>\<open>(/|$)\<close>: the first alternative consumes a slash, the second succeeds only at
  the end of the input (there is no \<^verbatim>\<open>m\<close> flag). The result is the captured text and the
  input after the match.
\<close>

fun slash_or_end :: "string \<Rightarrow> (string \<times> string) option" where
  "slash_or_end [] = Some ([], [])"
| "slash_or_end (x # xs) = (if x = CHR ''/'' then Some ([x], xs) else None)"

definition match_here :: "atom list \<Rightarrow> string \<Rightarrow> (string \<times> string) option" where
  "match_here p s = (case match_atoms p s of None \<Rightarrow> None | Some rest \<Rightarrow> slash_or_end rest)"

text \<open>
  \<^verbatim>\<open>s.replace(new RegExp(...), '$1')\<close> without the \<^verbatim>\<open>g\<close> flag: the leftmost match is
  replaced by the text of group 1, everything else is kept; no match leaves \<open>s\<close> as it is.
\<close>

fun replace_dollar1 :: "atom list \<Rightarrow> string \<Rightarrow> string" where
  "replace_dollar1 p [] =
     (case match_here p [] of Some (g1, rest) \<Rightarrow> g1 @ rest | None \<Rightarrow> [])"
| "replace_dollar1 p (x # xs) =
     (case match_here p (x # xs) of Some (g1, rest) \<Rightarrow> g1 @ rest
      | None \<Rightarrow> x # replace_dollar1 p xs)"

text \<open>\<open>has_match p s\<close>: the pattern matches somewhere in \<open>s\<close>.\<close>

fun has_match :: "atom list \<Rightarrow> string \<Rightarrow> bool" where
  "has_match p [] \<longleftrightarrow> match_here p [] \<noteq> None"
| "has_match p (x # xs) \<longleftrightarrow> match_here p (x # xs) \<noteq> None \<or> has_match p xs"

text \<open>The pattern \<^verbatim>\<open>new RegExp('/index(/|$)')\<close>.\<close>

definition index_pattern :: "atom list" where
  "index_pattern = map Lit ''/index''"

text \<open>
  The pattern built from the template literal \<^verbatim>\<open>`\.${locale}(\/|$)`\<close>. In an untagged
  template literal the escapes \<^verbatim>\<open>\.\<close> and \<^verbatim>\<open>\/\<close> denote the characters \<^verbatim>\<open>.\<close> and
  \<^verbatim>\<open>/\<close>, so the pattern source handed to \<^verbatim>\<open>RegExp\<close> is \<^verbatim>\<open>.\<close> followed by the
  locale, unescaped, followed by \<^verbatim>\<open>(/|$)\<close>: the leading dot is the wildcard, and the
  characters of the locale are read as pattern syntax.

  The embedded fragment of that syntax: a locale of pattern characters and dots gives
  one atom per character. With parentheses and no other syntax character the source
  parses exactly when the parentheses are balanced; the unbalanced case is the
  constructor's \<^verbatim>\<open>SyntaxError\<close>. Groups and every other syntax character
  (\<^verbatim>\<open>^ $ \ * + ? [ ] { } |\<close>) are outside the fragment: there \<open>locale_pattern\<close> is
  \<open>Unmodelled\<close>, whatever the program does with the pattern.
\<close>

definition syntaxCharacter :: "char \<Rightarrow> bool" where
  "syntaxCharacter c \<longleftrightarrow>
     c \<in> set [CHR ''^'', CHR ''$'', CHR 0x5C, CHR ''.'', CHR ''*'', CHR ''+'', CHR ''?'',
              CHR ''('', CHR '')'', CHR ''['', CHR '']'', CHR ''{'', CHR ''}'', CHR ''|'']"

definition paren :: "char \<Rightarrow> bool" where
  "paren c \<longleftrightarrow> c = CHR ''('' \<or> c = CHR '')''"

definition beyond_fragment :: "char \<Rightarrow> bool" where
  "beyond_fragment c \<longleftrightarrow>
     c \<in> set [CHR ''^'', CHR ''$'', CHR 0x5C, CHR ''*'', CHR ''+'', CHR ''?'',
              CHR ''['', CHR '']'', CHR ''{'', CHR ''}'', CHR ''|'']"

fun balanced :: "nat \<Rightarrow> string \<Rightarrow> bool" where
  "balanced d [] \<longleftrightarrow> d = 0"
| "balanced d (c # cs) \<longleftrightarrow>
     (if c = CHR ''('' then balanced (Suc d) cs
      else if c = CHR '')'' then (case d of 0 \<Rightarrow> False | Suc d' \<Rightarrow> balanced d' cs)
      else balanced d cs)"

definition locale_atom :: "char \<Rightarrow> atom" where
  "locale_atom c = (if c = CHR ''.'' then AnyChar else Lit c)"

definition locale_pattern :: "string \<Rightarrow> atom list outcome" where
  "locale_pattern locale =
     (if list_ex beyond_fragment locale then Unmodelled
      else if list_ex paren locale
           then (if balanced 0 locale then Unmodelled else Thrown SyntaxError)
      else Returned (AnyChar # map locale_atom locale))"

section \<open>\<^verbatim>\<open>getFSRoute\<close>\<close>

text \<open>
  \<^verbatim>\<open>
  const getFSRoute = (asPath, locale) => {
    if (!locale) return asPath.replace(new RegExp('/index(/|$)'), '$1');
    return asPath
      .replace(new RegExp(`\.${locale}(\/|$)`), '$1')
      .replace(new RegExp('/index(/|$)'), '$1');
  };
  \<close>
  The locale is \<open>None\<close> for \<^verbatim>\<open>undefined\<close> and \<^verbatim>\<open>null\<close>; the empty string is falsy as well
  and takes the first branch.
\<close>

definition falsy :: "string option \<Rightarrow> bool" where
  "falsy locale \<longleftrightarrow> (case locale of None \<Rightarrow> True | Some l \<Rightarrow> l = [])"

definition getFSRoute :: "string \<Rightarrow> string option \<Rightarrow> string outcome" where
  "getFSRoute asPath locale =
     (if falsy locale then Returned (replace_dollar1 index_pattern asPath)
      else (case locale_pattern (the locale) of
              Returned p \<Rightarrow>
                Returned (replace_dollar1 index_pattern (replace_dollar1 p asPath))
            | Thrown e \<Rightarrow> Thrown e
            | Unmodelled \<Rightarrow> Unmodelled))"

text \<open>
  A removable segment of \<open>s\<close>: a place where one of the patterns that
  \<^verbatim>\<open>getFSRoute\<close> applies for this locale matches.
\<close>

definition removable :: "string option \<Rightarrow> string \<Rightarrow> bool" where
  "removable locale s \<longleftrightarrow>
     has_match index_pattern s \<or>
     (\<not> falsy locale \<and>
      (case locale_pattern (the locale) of Returned q \<Rightarrow> has_match q s | _ \<Rightarrow> False))"

text \<open>The number of places of \<open>s\<close> at which the pattern matches.\<close>

fun count_matches :: "atom list \<Rightarrow> string \<Rightarrow> nat" where
  "count_matches p [] = (if match_here p [] = None then 0 else 1)"
| "count_matches p (x # xs) =
     (if match_here p (x # xs) = None then 0 else 1) + count_matches p xs"

text \<open>A locale without syntax characters.\<close>

definition ordinary :: "string \<Rightarrow> bool" where
  "ordinary l \<longleftrightarrow> \<not> list_ex syntaxCharacter l"

subsection \<open>The specification's reading of the locale step\<close>

text \<open>
  The specification describes the first replacement as the removal of a literal
  \<^verbatim>\<open>.{locale}\<close> segment, every character of it escaped. \<open>getFSRoute_literal\<close> follows
  those words: the same two replacements, the first with the pattern in which the dot
  and each character of the locale match only themselves.
\<close>

definition literal_locale_pattern :: "string \<Rightarrow> atom list" where
  "literal_locale_pattern l = Lit (CHR ''.'') # map Lit l"

definition strip_literal :: "string \<Rightarrow> string \<Rightarrow> string" where
  "strip_literal l s = replace_dollar1 (literal_locale_pattern l) s"

definition getFSRoute_literal :: "string \<Rightarrow> string option \<Rightarrow> string" where
  "getFSRoute_literal asPath locale =
     (if falsy locale then replace_dollar1 index_pattern asPath
      else replace_dollar1 index_pattern (strip_literal (the locale) asPath))"

text \<open>
  \<open>dot_led l s\<close>: wherever in \<open>s\<close> a character is followed by the text \<open>l\<close> and then by
  a slash or the end of the string, that character is a dot.
\<close>

fun dot_led :: "string \<Rightarrow> string \<Rightarrow> bool" where
  "dot_led l [] \<longleftrightarrow> True"
| "dot_led l (x # xs) \<longleftrightarrow>
     (match_here (map Lit l) xs = None \<or> x = CHR ''.'') \<and> dot_led l xs"

section \<open>The sidebar tree\<close>

text \<open>
  A directory entry is an object with \<^verbatim>\<open>name\<close>, \<^verbatim>\<open>route\<close>, \<^verbatim>\<open>title\<close> and, for a folder,
  \<^verbatim>\<open>children\<close>; \<^verbatim>\<open>Menu\<close> renders an entry as a \<^verbatim>\<open>Folder\<close> exactly when
  \<^verbatim>\<open>item.children\<close> is truthy, which every array is, the empty one included.
\<close>

datatype item =
    PageItem (name: string) (route: string) (title: string)
  | FolderItem (name: string) (route: string) (title: string) (children: "item list")

text \<open>
  \<^verbatim>\<open>const TreeState = new Map()\<close> is used through property access only
  (\<^verbatim>\<open>TreeState[item.route]\<close>), and the only values stored are booleans: a partial map from
  routes to booleans. Routes are paths, so no route names a property that a \<^verbatim>\<open>Map\<close>
  object inherits.
\<close>

type_synonym tree_state = "string \<rightharpoonup> bool"

text \<open>
  In \<^verbatim>\<open>Folder\<close> and in \<^verbatim>\<open>File\<close>:
  \<^verbatim>\<open>
  const route = getFSRoute(asPath, locale) + '/';
  const active = route === item.route + '/';
  \<close>
  All components of one render pass read the same \<^verbatim>\<open>asPath\<close> and \<^verbatim>\<open>locale\<close> from the
  router; \<open>fsRoute\<close> stands for the string that \<^verbatim>\<open>getFSRoute(asPath, locale)\<close> returned
  in that pass.
\<close>

definition active :: "string \<Rightarrow> item \<Rightarrow> bool" where
  "active fsRoute item \<longleftrightarrow> fsRoute @ ''/'' = route item @ ''/''"

text \<open>\<^verbatim>\<open>const open = TreeState[item.route] ?? !defaultMenuCollapsed\<close>\<close>

definition Folder_open :: "tree_state \<Rightarrow> bool \<Rightarrow> item \<Rightarrow> bool" where
  "Folder_open TreeState defaultMenuCollapsed item =
     (case TreeState (route item) of Some b \<Rightarrow> b | None \<Rightarrow> \<not> defaultMenuCollapsed)"

text \<open>
  The rendered list items. A folder's heading is a \<^verbatim>\<open>button\<close> when \<^verbatim>\<open>depth > 0\<close> and
  an \<^verbatim>\<open>h5\<close> without a handler otherwise. The button's \<^verbatim>\<open>onClick\<close> closure captures
  \<^verbatim>\<open>active\<close>, \<^verbatim>\<open>open\<close> and \<^verbatim>\<open>item.route\<close> of the render that created it; the
  button carries these captured values. The children of a folder are always rendered,
  inside a \<^verbatim>\<open>div\<close> whose \<^verbatim>\<open>display\<close> style is \<^verbatim>\<open>none\<close> when the folder is not
  open. \<^verbatim>\<open>Menu\<close> applies \<^verbatim>\<open>Folder\<close> to entries with children only, and \<open>Folder\<close> has
  an equation for those only.
\<close>

datatype heading =
    Button (label: string) (captured_active: bool) (captured_open: bool)
      (captured_route: string)
  | H5 (label: string)

datatype element =
    FolderLi (className: string) (header: heading) (display: string)
      (entries: "element list")
  | FileLi (className: string) (href: string) (anchor: string)

definition File :: "string \<Rightarrow> item \<Rightarrow> element" where
  "File fsRoute item =
     FileLi (if active fsRoute item then ''active'' else []) (route item) (title item)"

fun Folder :: "string \<Rightarrow> bool \<Rightarrow> tree_state \<Rightarrow> nat \<Rightarrow> item \<Rightarrow> element"
  and Menu :: "string \<Rightarrow> bool \<Rightarrow> tree_state \<Rightarrow> nat \<Rightarrow> item list \<Rightarrow> element list"
where
  "Folder fsRoute defaultMenuCollapsed TreeState depth (FolderItem n r t cs) =
     (let item = FolderItem n r t cs;
          act = active fsRoute item;
          opn = Folder_open TreeState defaultMenuCollapsed item
      in FolderLi (if opn then ''active'' else [])
           (if depth > 0 then Button (title item) act opn (route item) else H5 (title item))
           (if opn then ''initial'' else ''none'')
           (Menu fsRoute defaultMenuCollapsed TreeState (depth + 1) cs))"
| "Menu fsRoute defaultMenuCollapsed TreeState depth [] = []"
| "Menu fsRoute defaultMenuCollapsed TreeState depth (PageItem n r t # dir) =
     File fsRoute (PageItem n r t) # Menu fsRoute defaultMenuCollapsed TreeState depth dir"
| "Menu fsRoute defaultMenuCollapsed TreeState depth (FolderItem n r t cs # dir) =
     Folder fsRoute defaultMenuCollapsed TreeState depth (FolderItem n r t cs)
       # Menu fsRoute defaultMenuCollapsed TreeState depth dir"

text \<open>
  The click handler of a heading, acting on \<^verbatim>\<open>TreeState\<close> and on the boolean of
  \<^verbatim>\<open>const [_, render] = useState(false)\<close>:
  \<^verbatim>\<open>
  onClick={() => {
    if (active) return;
    TreeState[item.route] = !open;
    render((x) => !x);
  }}
  \<close>
  An \<^verbatim>\<open>h5\<close> heading has no handler.
\<close>

fun onClick :: "heading \<Rightarrow> (tree_state \<times> bool \<Rightarrow> tree_state \<times> bool) option" where
  "onClick (Button t act opn r) =
     Some (\<lambda>(TreeState, x). if act then (TreeState, x) else (TreeState(r \<mapsto> \<not> opn), \<not> x))"
| "onClick (H5 t) = None"

text \<open>A click on a heading runs its handler, if it has one.\<close>

definition click :: "heading \<Rightarrow> tree_state \<times> bool \<Rightarrow> tree_state \<times> bool" where
  "click h state = (case onClick h of Some handler \<Rightarrow> handler state | None \<Rightarrow> state)"

text \<open>
  The effect of a folder, run after the render that mounted it or changed \<^verbatim>\<open>active\<close>:
  \<^verbatim>\<open>
  useEffect(() => { if (active) { TreeState[item.route] = true; } }, [active]);
  \<close>
  \<open>commit_effects\<close> runs the effects of all folders of the tree, children before their
  parent as React commits them. Every folder of the tree is mounted, whether displayed
  or not, since a closed folder still renders its children. After a later render React
  skips the effect of a folder whose \<^verbatim>\<open>active\<close> has not changed; such an effect would
  write nothing, or write \<open>true\<close> over the \<open>true\<close> it wrote before, which no click can
  have changed while the folder stayed active.
\<close>

definition Folder_effect :: "string \<Rightarrow> item \<Rightarrow> tree_state \<Rightarrow> tree_state" where
  "Folder_effect fsRoute item TreeState =
     (if active fsRoute item then TreeState(route item \<mapsto> True) else TreeState)"

fun commit_effects :: "string \<Rightarrow> item list \<Rightarrow> tree_state \<Rightarrow> tree_state" where
  "commit_effects fsRoute [] TreeState = TreeState"
| "commit_effects fsRoute (PageItem n r t # dir) TreeState =
     commit_effects fsRoute dir TreeState"
| "commit_effects fsRoute (FolderItem n r t cs # dir) TreeState =
     commit_effects fsRoute dir
       (Folder_effect fsRoute (FolderItem n r t cs) (commit_effects fsRoute cs TreeState))"

text \<open>The routes of all folders of a tree.\<close>

fun folder_routes :: "item list \<Rightarrow> string set" where
  "folder_routes [] = {}"
| "folder_routes (PageItem n r t # dir) = folder_routes dir"
| "folder_routes (FolderItem n r t cs # dir) =
     insert r (folder_routes cs \<union> folder_routes dir)"

subsection \<open>Measuring a rendered menu\<close>

text \<open>
  What the statements below read off a tree and off the list items that \<^verbatim>\<open>Menu\<close>
  returns: the number of entries of a tree and their titles, parents before children
  and siblings in their order; the number of rendered list items and the titles they
  show, in document order. Nothing here removes an item: a list item inside a
  container with \<^verbatim>\<open>display: none\<close> counts like any other.
\<close>

fun count_items :: "item list \<Rightarrow> nat" where
  "count_items [] = 0"
| "count_items (PageItem n r t # dir) = Suc (count_items dir)"
| "count_items (FolderItem n r t cs # dir) = Suc (count_items cs + count_items dir)"

fun titles_preorder :: "item list \<Rightarrow> string list" where
  "titles_preorder [] = []"
| "titles_preorder (PageItem n r t # dir) = t # titles_preorder dir"
| "titles_preorder (FolderItem n r t cs # dir) =
     t # titles_preorder cs @ titles_preorder dir"

fun count_li :: "element list \<Rightarrow> nat" where
  "count_li [] = 0"
| "count_li (FileLi c ref a # es) = Suc (count_li es)"
| "count_li (FolderLi c h disp kids # es) = Suc (count_li kids + count_li es)"

fun rendered_titles :: "element list \<Rightarrow> string list" where
  "rendered_titles [] = []"
| "rendered_titles (FileLi c ref a # es) = a # rendered_titles es"
| "rendered_titles (FolderLi c h disp kids # es) =
     label h # rendered_titles kids @ rendered_titles es"

text \<open>
  One navigation event: the sidebar's \<^verbatim>\<open><Menu dir={directories} />\<close>, of the default
  depth 0, is rendered for the new \<^verbatim>\<open>asPath\<close> and \<^verbatim>\<open>locale\<close> against the current
  \<^verbatim>\<open>TreeState\<close>, then the effects run. A throwing \<^verbatim>\<open>getFSRoute\<close> aborts the render.
\<close>

definition navigate ::
  "string \<Rightarrow> string option \<Rightarrow> bool \<Rightarrow> item list \<Rightarrow> tree_state
     \<Rightarrow> (element list \<times> tree_state) outcome"
where
  "navigate asPath locale defaultMenuCollapsed directories TreeState =
     (case getFSRoute asPath locale of
        Returned fsRoute \<Rightarrow>
          Returned (Menu fsRoute defaultMenuCollapsed TreeState 0 directories,
                    commit_effects fsRoute directories TreeState)
      | Thrown e \<Rightarrow> Thrown e
      | Unmodelled \<Rightarrow> Unmodelled)"

section \<open>\<^verbatim>\<open>hasSortableData\<close>\<close>

text \<open>
  JavaScript values, as far as \<^verbatim>\<open>typeof\<close> and \<^verbatim>\<open>in\<close> tell them apart. An object is
  the list of the properties that \<^verbatim>\<open>in\<close> finds on it, own or inherited, with their
  values; an array is an object.
\<close>

datatype jsval =
    JUndefined | JNull | JBoolean bool | JNumber int | JString string | JFunction
  | JObject "(string \<times> jsval) list"

fun typeof :: "jsval \<Rightarrow> string" where
  "typeof JUndefined = ''undefined''"
| "typeof JNull = ''object''"
| "typeof (JBoolean b) = ''boolean''"
| "typeof (JNumber n) = ''number''"
| "typeof (JString s) = ''string''"
| "typeof JFunction = ''function''"
| "typeof (JObject ps) = ''object''"

text \<open>\<^verbatim>\<open>key in v\<close> throws a \<^verbatim>\<open>TypeError\<close> unless \<open>v\<close> is an object.\<close>

fun js_in :: "string \<Rightarrow> jsval \<Rightarrow> bool outcome" where
  "js_in key (JObject ps) = Returned (map_of ps key \<noteq> None)"
| "js_in key v = Thrown TypeError"

text \<open>
  The argument is a \<^verbatim>\<open>DraggableNode\<close> or \<^verbatim>\<open>DroppableContainer\<close>, \<^verbatim>\<open>null\<close> or
  \<^verbatim>\<open>undefined\<close>. Of a node only \<^verbatim>\<open>entry.data.current\<close> is read; its declared type is
  \<^verbatim>\<open>Data | undefined\<close> with \<^verbatim>\<open>Data\<close> a record of arbitrary values.
\<close>

record dataRef =
  current :: "(string \<times> jsval) list option"

record node =
  data :: dataRef

datatype 'a nullable = Null | Undefined | Value 'a

text \<open>
  \<^verbatim>\<open>
  export function hasSortableData(entry) {
    if (!entry) { return false; }
    const data = entry.data.current;
    if (data && 'sortable' in data && typeof data.sortable === 'object' &&
        'containerId' in data.sortable && 'items' in data.sortable &&
        'index' in data.sortable) {
      return true;
    }
    return false;
  }
  \<close>
  \<open>and_then\<close> is the short-circuit \<^verbatim>\<open>&&\<close> of a condition that may throw.
\<close>

fun and_then :: "bool outcome \<Rightarrow> bool outcome \<Rightarrow> bool outcome" where
  "and_then (Returned True) rhs = rhs"
| "and_then lhs rhs = lhs"

definition hasSortableData :: "node nullable \<Rightarrow> bool outcome" where
  "hasSortableData entry =
     (case entry of
        Null \<Rightarrow> Returned False
      | Undefined \<Rightarrow> Returned False
      | Value e \<Rightarrow>
          (case current (data e) of
             None \<Rightarrow> Returned False
           | Some d \<Rightarrow>
               (case map_of d ''sortable'' of
                  None \<Rightarrow> Returned False
                | Some sortable \<Rightarrow>
                    and_then (Returned (typeof sortable = ''object''))
                      (and_then (js_in ''containerId'' sortable)
                        (and_then (js_in ''items'' sortable)
                          (js_in ''index'' sortable))))))"

section \<open>Properties of the replacement\<close>

lemma slash_or_end_append: "slash_or_end r = Some (g, rest) \<Longrightarrow> g @ rest = r"
  by (cases r) (auto split: if_splits)

lemma slash_or_end_shape:
  "slash_or_end r = Some (g, rest) \<Longrightarrow> g @ rest = [] \<or> (\<exists>t. g @ rest = CHR ''/'' # t)"
  by (cases r) (auto split: if_splits)

lemma match_atoms_length: "match_atoms p s = Some r \<Longrightarrow> length s = length p + length r"
  by (induction p s rule: match_atoms.induct) (auto split: if_splits)

lemma match_atoms_drop: "match_atoms p s = Some r \<Longrightarrow> r = drop (length p) s"
  by (induction p s rule: match_atoms.induct) (auto split: if_splits)

lemma match_atoms_literal: "match_atoms (map Lit w) s = Some r \<Longrightarrow> s = w @ r"
proof (induction w arbitrary: s)
  case Nil
  then show ?case by simp
next
  case (Cons c w)
  then show ?case by (cases s) (auto split: if_splits)
qed

lemma match_here_Nil: "match_here [] s = slash_or_end s"
  by (simp add: match_here_def)

lemma match_here_Cons_Nil: "match_here (a # q) [] = None"
  by (simp add: match_here_def)

lemma match_here_Cons:
  "match_here (a # q) (x # xs) = (if atom_matches a x then match_here q xs else None)"
  by (simp add: match_here_def)

lemma match_here_parts:
  assumes "match_here p s = Some (g, rest)"
  obtains r where "match_atoms p s = Some r" and "slash_or_end r = Some (g, rest)"
  using assms by (auto simp: match_here_def split: option.splits)

lemma match_here_length:
  assumes "match_here p s = Some (g, rest)"
  shows "length s = length p + length (g @ rest)"
  using assms match_atoms_length slash_or_end_append by (elim match_here_parts) fastforce

lemma match_here_drop:
  assumes "match_here p s = Some (g, rest)"
  shows "g @ rest = drop (length p) s"
  using assms match_atoms_drop slash_or_end_append by (elim match_here_parts) blast

lemma match_here_shape:
  assumes "match_here p s = Some (g, rest)"
  shows "g @ rest = [] \<or> (\<exists>t. g @ rest = CHR ''/'' # t)"
  using assms slash_or_end_shape by (elim match_here_parts) blast

lemma match_here_literal:
  assumes "match_here (map Lit w) s = Some (g, rest)"
  shows "s = w @ g @ rest"
  using assms match_atoms_literal slash_or_end_append by (elim match_here_parts) blast

text \<open>Without a match the string is returned as it is; a match makes it shorter.\<close>

lemma replace_no_match: "\<not> has_match p s \<Longrightarrow> replace_dollar1 p s = s"
proof (induction s)
  case Nil
  then show ?case by (cases "match_here p []") auto
next
  case (Cons x xs)
  then show ?case by (cases "match_here p (x # xs)") auto
qed

lemma replace_length_le: "length (replace_dollar1 p s) \<le> length s"
proof (induction s)
  case Nil
  show ?case by (cases "match_here p []") (auto dest: match_here_length)
next
  case (Cons x xs)
  then show ?case
    by (cases "match_here p (x # xs)") (auto dest: match_here_length)
qed

lemma replace_shrinks:
  "has_match p s \<Longrightarrow> p \<noteq> [] \<Longrightarrow> length (replace_dollar1 p s) < length s"
proof (induction s)
  case Nil
  then show ?case by (cases "match_here p []") (auto dest: match_here_length)
next
  case (Cons x xs)
  show ?case
  proof (cases "match_here p (x # xs)")
    case None
    with Cons show ?thesis by simp
  next
    case (Some m)
    with Cons.prems(2) show ?thesis
      by (cases m) (auto dest: match_here_length)
  qed
qed

lemma replace_fixed_iff:
  "p \<noteq> [] \<Longrightarrow> replace_dollar1 p s = s \<longleftrightarrow> \<not> has_match p s"
  using replace_shrinks [of p s] replace_no_match [of p s] by auto

lemma count_matches_0: "count_matches p s = 0 \<longleftrightarrow> \<not> has_match p s"
  by (induction s) auto

lemma no_match_drop: "\<not> has_match p s \<Longrightarrow> \<not> has_match p (drop n s)"
proof (induction s arbitrary: n)
  case Nil
  then show ?case by simp
next
  case (Cons x xs)
  then show ?case by (cases n) auto
qed

subsection \<open>A single \<^verbatim>\<open>/index\<close> segment\<close>

text \<open>
  Removing the leftmost \<^verbatim>\<open>/index\<close> segment cannot create a new one across the cut:
  what follows the cut is empty or starts with a slash, and the word \<^verbatim>\<open>index\<close> has no
  slash in it.
\<close>

lemma index_match_head:
  "match_here index_pattern (y # ys) = Some m \<Longrightarrow> y = CHR ''/''"
  by (auto simp: index_pattern_def match_here_Cons split: if_splits)

lemma junction:
  assumes "CHR ''/'' \<notin> set w"
    and "match_here (map Lit w) (replace_dollar1 index_pattern xs) \<noteq> None"
  shows "match_here (map Lit w) xs \<noteq> None"
  using assms
proof (induction w arbitrary: xs)
  case Nil
  show ?case
  proof (cases xs)
    case Nil
    then show ?thesis by (simp add: match_here_Nil)
  next
    case (Cons y ys)
    show ?thesis
    proof (cases "match_here index_pattern (y # ys)")
      case None
      with Nil.prems Cons show ?thesis
        by (auto simp: match_here_Nil split: if_splits)
    next
      case (Some m)
      then have "y = CHR ''/''" by (rule index_match_head)
      with Cons show ?thesis by (simp add: match_here_Nil)
    qed
  qed
next
  case (Cons c w)
  show ?case
  proof (cases xs)
    case Nil
    with Cons.prems show ?thesis
      by (simp add: match_here_Cons_Nil index_pattern_def)
  next
    case xs: (Cons y ys)
    show ?thesis
    proof (cases "match_here index_pattern (y # ys)")
      case None
      with Cons.prems xs
      have "y = c" and "match_here (map Lit w) (replace_dollar1 index_pattern ys) \<noteq> None"
        by (auto simp: match_here_Cons split: if_splits)
      moreover from Cons.prems have "CHR ''/'' \<notin> set w" by simp
      ultimately have "match_here (map Lit w) ys \<noteq> None" using Cons.IH by blast
      with \<open>y = c\<close> xs show ?thesis by (simp add: match_here_Cons)
    next
      case (Some m)
      obtain g rest where m: "m = (g, rest)" by (cases m)
      from Some m have shape: "g @ rest = [] \<or> (\<exists>t. g @ rest = CHR ''/'' # t)"
        using match_here_shape by blast
      from Some m xs have "replace_dollar1 index_pattern xs = g @ rest" by simp
      with Cons.prems shape have False
        by (auto simp: match_here_Cons match_here_Cons_Nil split: if_splits)
      then show ?thesis ..
    qed
  qed
qed

lemma index_junction:
  assumes "match_here index_pattern (x # replace_dollar1 index_pattern xs) \<noteq> None"
  shows "match_here index_pattern (x # xs) \<noteq> None"
proof -
  have ip: "index_pattern = Lit (CHR ''/'') # map Lit ''index''"
    by (simp add: index_pattern_def)
  from assms have x: "x = CHR ''/''"
    and "match_here (map Lit ''index'') (replace_dollar1 index_pattern xs) \<noteq> None"
    unfolding ip by (auto simp only: match_here_Cons atom_matches.simps split: if_splits)
  then have "match_here (map Lit ''index'') xs \<noteq> None"
    using junction [of "''index''" xs] by simp
  with x show ?thesis unfolding ip by (simp add: match_here_Cons)
qed

lemma single_index_segment:
  "count_matches index_pattern s \<le> 1 \<Longrightarrow>
   \<not> has_match index_pattern (replace_dollar1 index_pattern s)"
proof (induction s)
  case Nil
  then show ?case by (simp add: index_pattern_def match_here_Cons_Nil)
next
  case (Cons x xs)
  show ?case
  proof (cases "match_here index_pattern (x # xs)")
    case None
    with Cons.prems have "count_matches index_pattern xs \<le> 1" by simp
    then have ih: "\<not> has_match index_pattern (replace_dollar1 index_pattern xs)"
      by (rule Cons.IH)
    have "match_here index_pattern (x # replace_dollar1 index_pattern xs) = None"
      using index_junction [of x xs] None by blast
    with ih None show ?thesis by simp
  next
    case (Some m)
    obtain g rest where m: "m = (g, rest)" by (cases m)
    from Some Cons.prems have "count_matches index_pattern xs = 0" by simp
    then have "\<not> has_match index_pattern xs" by (simp add: count_matches_0)
    then have "\<not> has_match index_pattern (drop 5 xs)" by (rule no_match_drop)
    moreover from Some m have "g @ rest = drop (length index_pattern) (x # xs)"
      using match_here_drop by blast
    then have "g @ rest = drop 5 xs" by (simp add: index_pattern_def eval_nat_numeral)
    ultimately show ?thesis using Some m by simp
  qed
qed

subsection \<open>Locales without syntax characters\<close>

lemma ordinary_pattern:
  assumes "ordinary l"
  shows "locale_pattern l = Returned (AnyChar # map Lit l)"
proof -
  from assms have all: "\<forall>c\<in>set l. \<not> syntaxCharacter c"
    by (simp add: ordinary_def list_ex_iff)
  then have "\<not> list_ex beyond_fragment l" and "\<not> list_ex paren l"
    by (auto simp: list_ex_iff beyond_fragment_def paren_def syntaxCharacter_def)
  moreover from all have "map locale_atom l = map Lit l"
    by (auto simp: locale_atom_def syntaxCharacter_def)
  ultimately show ?thesis by (simp add: locale_pattern_def)
qed

lemma literal_replace_match:
  "has_match (map Lit w) s \<Longrightarrow>
   \<exists>a b. s = a @ w @ b \<and> (b = [] \<or> (\<exists>t. b = CHR ''/'' # t)) \<and>
         replace_dollar1 (map Lit w) s = a @ b"
proof (induction s)
  case Nil
  then obtain m where "match_here (map Lit w) [] = Some m" by auto
  then show ?case
    by (cases m) (auto dest: match_here_literal)
next
  case (Cons x xs)
  show ?case
  proof (cases "match_here (map Lit w) (x # xs)")
    case None
    with Cons.prems have "has_match (map Lit w) xs" by simp
    then obtain a b where "xs = a @ w @ b" "b = [] \<or> (\<exists>t. b = CHR ''/'' # t)"
      "replace_dollar1 (map Lit w) xs = a @ b"
      using Cons.IH by blast
    with None have "x # xs = (x # a) @ w @ b \<and> (b = [] \<or> (\<exists>t. b = CHR ''/'' # t)) \<and>
        replace_dollar1 (map Lit w) (x # xs) = (x # a) @ b"
      by simp
    then show ?thesis by blast
  next
    case (Some m)
    obtain g rest where m: "m = (g, rest)" by (cases m)
    with Some have "x # xs = [] @ w @ (g @ rest)"
      using match_here_literal by fastforce
    moreover from Some m have "g @ rest = [] \<or> (\<exists>t. g @ rest = CHR ''/'' # t)"
      using match_here_shape by blast
    moreover from Some m have "replace_dollar1 (map Lit w) (x # xs) = [] @ (g @ rest)"
      by simp
    ultimately show ?thesis by blast
  qed
qed

lemma strip_literal_cases:
  "if has_match (literal_locale_pattern l) s
   then \<exists>a b. s = a @ CHR ''.'' # l @ b \<and> (b = [] \<or> (\<exists>t. b = CHR ''/'' # t)) \<and>
          strip_literal l s = a @ b
   else strip_literal l s = s"
  using literal_replace_match [of "CHR ''.'' # l" s] replace_no_match
  by (simp add: strip_literal_def literal_locale_pattern_def)

lemma dot_led_agree:
  "dot_led l s \<Longrightarrow>
   replace_dollar1 (AnyChar # map Lit l) s = replace_dollar1 (literal_locale_pattern l) s"
proof (induction s)
  case Nil
  show ?case by (simp add: literal_locale_pattern_def match_here_Cons_Nil)
next
  case (Cons x xs)
  then have ih: "replace_dollar1 (AnyChar # map Lit l) xs =
      replace_dollar1 (literal_locale_pattern l) xs"
    by simp
  from Cons.prems have "match_here (map Lit l) xs = None \<or> x = CHR ''.''" by simp
  then have "match_here (AnyChar # map Lit l) (x # xs) =
      match_here (literal_locale_pattern l) (x # xs)"
    by (auto simp: match_here_Cons literal_locale_pattern_def lineTerminator_def)
  with ih show ?case by (simp split: option.splits)
qed

text \<open>Where the model of \<^verbatim>\<open>getFSRoute\<close> ends: exactly at the locales described above.\<close>

lemma getFSRoute_Unmodelled_iff:
  "getFSRoute p l = Unmodelled \<longleftrightarrow>
     \<not> falsy l \<and>
     (list_ex beyond_fragment (the l) \<or> list_ex paren (the l) \<and> balanced 0 (the l))"
  by (auto simp: getFSRoute_def locale_pattern_def split: outcome.splits)

text \<open>
  The scenario of the specification evaluates as written there; the segment removed is
  \<^verbatim>\<open>/fr/\<close> with the slash in the place of the dot, which the literal reading keeps.
\<close>

lemma getFSRoute_scenario_fr:
  "getFSRoute ''/fr/guides/index'' (Some ''fr'') = Returned ''/guides'' \<and>
   getFSRoute_literal ''/fr/guides/index'' (Some ''fr'') = ''/fr/guides''"
  by code_simp

section \<open>Claims about \<^verbatim>\<open>getFSRoute\<close>\<close>

text \<open>
  Claim C2, as amended. \<^verbatim>\<open>getFSRoute\<close> replaces only the leftmost match of each
  pattern, so a second application can remove a further segment. For every path and
  every locale that is absent, empty or free of syntax characters, \<^verbatim>\<open>getFSRoute\<close>
  returns, and applying it to its own result \<open>r\<close> returns \<open>r\<close> exactly when \<open>r\<close> holds
  no removable segment any more; in particular, without a locale, whenever the path has
  at most one place where \<^verbatim>\<open>/index\<close> is followed by a slash or the end of the string.
\<close>

theorem getFSRoute_idempotent_iff:
  assumes "falsy l \<or> ordinary (the l)"
  shows "\<exists>r. getFSRoute p l = Returned r \<and>
           (getFSRoute r l = Returned r \<longleftrightarrow> \<not> removable l r) \<and>
           (falsy l \<and> count_matches index_pattern p \<le> 1 \<longrightarrow> getFSRoute r l = Returned r)"
proof (cases "falsy l")
  case True
  have ne: "index_pattern \<noteq> []" by (simp add: index_pattern_def)
  let ?r = "replace_dollar1 index_pattern p"
  from True have r: "getFSRoute p l = Returned ?r"
    by (simp add: getFSRoute_def)
  from True have fixed: "getFSRoute ?r l = Returned ?r \<longleftrightarrow> \<not> removable l ?r"
    by (simp add: getFSRoute_def removable_def replace_fixed_iff [OF ne])
  have single: "getFSRoute ?r l = Returned ?r" if "count_matches index_pattern p \<le> 1"
  proof -
    from that have "\<not> has_match index_pattern ?r" by (rule single_index_segment)
    with True show ?thesis by (simp add: getFSRoute_def replace_no_match)
  qed
  from r fixed single show ?thesis by blast
next
  case False
  have ne: "index_pattern \<noteq> []" by (simp add: index_pattern_def)
  let ?q = "AnyChar # map Lit (the l)"
  from False assms have q: "locale_pattern (the l) = Returned ?q"
    by (simp add: ordinary_pattern)
  let ?r = "replace_dollar1 index_pattern (replace_dollar1 ?q p)"
  from False q have r: "getFSRoute p l = Returned ?r"
    by (simp add: getFSRoute_def)
  have twice: "getFSRoute s l = Returned s \<longleftrightarrow> \<not> removable l s" for s
  proof (cases "has_match ?q s")
    case True
    then have "length (replace_dollar1 ?q s) < length s"
      by (rule replace_shrinks) simp
    moreover have "length (replace_dollar1 index_pattern (replace_dollar1 ?q s))
        \<le> length (replace_dollar1 ?q s)"
      by (rule replace_length_le)
    ultimately have "replace_dollar1 index_pattern (replace_dollar1 ?q s) \<noteq> s" by auto
    with True False q show ?thesis by (simp add: getFSRoute_def removable_def)
  next
    case nm: False
    then have "replace_dollar1 ?q s = s" by (rule replace_no_match)
    with nm False q show ?thesis
      by (simp add: getFSRoute_def removable_def replace_fixed_iff [OF ne])
  qed
  from r twice [of ?r] False show ?thesis by blast
qed

text \<open>
  Two instances: a path with the locale \<^verbatim>\<open>fr\<close> whose result is stable, and a path
  without a locale that has a single \<^verbatim>\<open>/index\<close> segment.
\<close>

theorem getFSRoute_idempotent_iff_witness:
  "(falsy (Some ''fr'') \<or> ordinary (the (Some ''fr''))) \<and>
   getFSRoute ''/guides/index'' (Some ''fr'') = Returned ''/guides'' \<and>
   getFSRoute ''/guides'' (Some ''fr'') = Returned ''/guides'' \<and>
   \<not> removable (Some ''fr'') ''/guides'' \<and>
   getFSRoute ''/docs/index/api'' None = Returned ''/docs/api'' \<and>
   falsy None \<and> count_matches index_pattern ''/docs/index/api'' \<le> 1 \<and>
   getFSRoute ''/docs/api'' None = Returned ''/docs/api''"
proof -
  have h: "falsy (Some ''fr'') \<or> ordinary (the (Some ''fr''))"
    by code_simp
  have a: "getFSRoute ''/guides/index'' (Some ''fr'') = Returned ''/guides''"
    by code_simp
  have b: "getFSRoute ''/docs/index/api'' None = Returned ''/docs/api''"
    by code_simp
  have c: "falsy None" "count_matches index_pattern ''/docs/index/api'' \<le> 1"
    by code_simp+
  have d: "\<not> removable (Some ''fr'') ''/guides''"
    by code_simp
  from c(1) have g: "falsy None \<or> ordinary (the None)" ..
  from getFSRoute_idempotent_iff [OF h, of "''/guides/index''"]
       getFSRoute_idempotent_iff [OF g, of "''/docs/index/api''"] h a b c d
  show ?thesis by auto
qed

text \<open>
  Claim C2 as stated fails without a locale at \<^verbatim>\<open>/index/index\<close>: the first application
  returns \<^verbatim>\<open>/index\<close>, the second the empty string.
\<close>

theorem getFSRoute_idempotent_counterexample:
  "getFSRoute ''/index/index'' None = Returned ''/index'' \<and>
   getFSRoute ''/index'' None \<noteq> Returned ''/index''"
  by code_simp

text \<open>
  Claim C8, as amended. For a locale without syntax characters and a path in which every
  place where a character is followed by the locale and then by a slash or the end of
  the string has a dot as that character, \<^verbatim>\<open>getFSRoute\<close> first removes the leftmost
  literal \<^verbatim>\<open>.{locale}\<close> that is followed by a slash or the end, consuming nothing else,
  and then applies the \<^verbatim>\<open>/index\<close> removal. On such inputs it agrees with the
  specification's literal reading.
\<close>

theorem getFSRoute_literal_when_dot_led:
  assumes "l \<noteq> []" and "ordinary l" and "dot_led l rawPath"
  shows "getFSRoute rawPath (Some l) =
           Returned (replace_dollar1 index_pattern (strip_literal l rawPath)) \<and>
         getFSRoute rawPath (Some l) = Returned (getFSRoute_literal rawPath (Some l)) \<and>
         (if has_match (literal_locale_pattern l) rawPath
          then \<exists>a b. rawPath = a @ CHR ''.'' # l @ b \<and> (b = [] \<or> (\<exists>t. b = CHR ''/'' # t)) \<and>
                 strip_literal l rawPath = a @ b
          else strip_literal l rawPath = rawPath)"
proof -
  from assms(1) have nf: "\<not> falsy (Some l)" by (simp add: falsy_def)
  from assms(3) have "replace_dollar1 (AnyChar # map Lit l) rawPath = strip_literal l rawPath"
    by (simp add: dot_led_agree strip_literal_def)
  with nf assms(2) have "getFSRoute rawPath (Some l) =
      Returned (replace_dollar1 index_pattern (strip_literal l rawPath))"
    by (simp add: getFSRoute_def ordinary_pattern)
  moreover from nf have "getFSRoute_literal rawPath (Some l) =
      replace_dollar1 index_pattern (strip_literal l rawPath)"
    by (simp add: getFSRoute_literal_def)
  ultimately show ?thesis using strip_literal_cases [of l rawPath] by simp
qed

text \<open>The locale \<^verbatim>\<open>fr\<close> on a path with the segment \<^verbatim>\<open>index.fr\<close>.\<close>

theorem getFSRoute_literal_when_dot_led_witness:
  "''fr'' \<noteq> [] \<and> ordinary ''fr'' \<and> dot_led ''fr'' ''/guides/index.fr/intro'' \<and>
   getFSRoute ''/guides/index.fr/intro'' (Some ''fr'') = Returned ''/guides/intro'' \<and>
   strip_literal ''fr'' ''/guides/index.fr/intro'' = ''/guides/index/intro''"
proof -
  have h: "''fr'' \<noteq> []" "ordinary ''fr''" "dot_led ''fr'' ''/guides/index.fr/intro''"
    by code_simp+
  have s: "strip_literal ''fr'' ''/guides/index.fr/intro'' = ''/guides/index/intro''"
    by code_simp
  have i: "replace_dollar1 index_pattern ''/guides/index/intro'' = ''/guides/intro''"
    by code_simp
  from getFSRoute_literal_when_dot_led [OF h] h s i show ?thesis by simp
qed

text \<open>
  Claim C8 as stated fails. With the locale \<^verbatim>\<open>f.\<close> the dot inside the locale matches
  the \<^verbatim>\<open>r\<close> of \<^verbatim>\<open>/a.fr\<close>, and \<^verbatim>\<open>.fr\<close> is removed from a path that does not contain
  \<^verbatim>\<open>.f.\<close>. With the locale \<^verbatim>\<open>fr\<close> the leading dot matches the \<^verbatim>\<open>x\<close> of
  \<^verbatim>\<open>/xfr/a\<close>, and \<^verbatim>\<open>xfr\<close> is removed from a path that does not contain \<^verbatim>\<open>.fr\<close>.
\<close>

theorem getFSRoute_literal_counterexample:
  "getFSRoute ''/a.fr'' (Some ''f.'') = Returned ''/a'' \<and>
   getFSRoute_literal ''/a.fr'' (Some ''f.'') = ''/a.fr'' \<and>
   getFSRoute ''/xfr/a'' (Some ''fr'') = Returned ''//a'' \<and>
   getFSRoute_literal ''/xfr/a'' (Some ''fr'') = ''/xfr/a''"
  by code_simp

text \<open>
  Claim C9, as amended. For every path, the empty one included, and every locale that
  is absent, empty or free of syntax characters, \<^verbatim>\<open>getFSRoute\<close> returns a string, never
  longer than the path, and it returns the path itself when no pattern matches in it.
  The function has no state to change.
\<close>

theorem getFSRoute_returns_for_ordinary:
  assumes "falsy locale \<or> ordinary (the locale)"
  shows "\<exists>r. getFSRoute rawPath locale = Returned r \<and> length r \<le> length rawPath \<and>
             (\<not> removable locale rawPath \<longrightarrow> r = rawPath)"
proof (cases "falsy locale")
  case True
  then show ?thesis
    by (simp add: getFSRoute_def removable_def replace_length_le replace_no_match)
next
  case False
  with assms have q: "locale_pattern (the locale) = Returned (AnyChar # map Lit (the locale))"
    by (simp add: ordinary_pattern)
  let ?q = "AnyChar # map Lit (the locale)"
  have "length (replace_dollar1 index_pattern (replace_dollar1 ?q rawPath))
      \<le> length (replace_dollar1 ?q rawPath)"
    by (rule replace_length_le)
  also have "\<dots> \<le> length rawPath" by (rule replace_length_le)
  finally have len: "length (replace_dollar1 index_pattern (replace_dollar1 ?q rawPath))
      \<le> length rawPath" .
  have "replace_dollar1 index_pattern (replace_dollar1 ?q rawPath) = rawPath"
    if "\<not> removable locale rawPath"
  proof -
    from that False q have "\<not> has_match ?q rawPath" "\<not> has_match index_pattern rawPath"
      by (simp_all add: removable_def)
    then show ?thesis by (simp add: replace_no_match)
  qed
  with False q len show ?thesis by (simp add: getFSRoute_def)
qed

text \<open>A string that is no path, with the locale \<^verbatim>\<open>en-US\<close>; and the empty path.\<close>

theorem getFSRoute_returns_for_ordinary_witness:
  "(falsy (Some ''en-US'') \<or> ordinary (the (Some ''en-US''))) \<and>
   \<not> removable (Some ''en-US'') ''not a path'' \<and>
   getFSRoute ''not a path'' (Some ''en-US'') = Returned ''not a path'' \<and>
   getFSRoute [] None = Returned []"
proof -
  have h: "falsy (Some ''en-US'') \<or> ordinary (the (Some ''en-US''))"
    by code_simp
  have n: "\<not> removable (Some ''en-US'') ''not a path''"
    by code_simp
  have e: "getFSRoute [] None = Returned []"
    by code_simp
  from getFSRoute_returns_for_ordinary [OF h, of "''not a path''"] h n e
  show ?thesis by auto
qed

text \<open>
  Claim C9 as stated fails at the locale \<^verbatim>\<open>(\<close>: the pattern source \<^verbatim>\<open>.((/|$)\<close> has an
  unterminated group, and the \<^verbatim>\<open>RegExp\<close> constructor throws.
\<close>

theorem getFSRoute_throws_counterexample:
  "getFSRoute ''/docs'' (Some ''('') = Thrown SyntaxError"
  by code_simp

section \<open>Claims about the sidebar tree\<close>


lemma commit_effects_cases:
  "commit_effects fsRoute dir TreeState r = TreeState r \<or>
   commit_effects fsRoute dir TreeState r = Some True"
proof (induction fsRoute dir TreeState rule: commit_effects.induct)
  case (1 fsRoute TreeState)
  show ?case by simp
next
  case (2 fsRoute n r t dir TreeState)
  then show ?case by simp
next
  case (3 fsRoute n r' t cs dir TreeState)
  let ?mid = "Folder_effect fsRoute (FolderItem n r' t cs) (commit_effects fsRoute cs TreeState)"
  have "?mid r = commit_effects fsRoute cs TreeState r \<or> ?mid r = Some True"
    by (simp add: Folder_effect_def)
  with 3 show ?case by auto
qed

text \<open>
  Claim C1, as amended. A folder is \<^verbatim>\<open>active\<close> when its own route equals the current
  canonical path, not when it is an ancestor of the active page. Active-route discovery
  writes \<open>true\<close> for exactly the routes of the folders whose own route is the current
  canonical path and leaves every other entry as it was, those of ancestors and of
  sibling folders alike.
\<close>

theorem discovery_marks_exact_matches:
  "commit_effects fsRoute dir TreeState =
     (\<lambda>r. if r = fsRoute \<and> r \<in> folder_routes dir then Some True else TreeState r) \<and>
   (navigate asPath locale dmc dir TreeState = Returned (rows, TreeState') \<longrightarrow>
      (\<exists>current. getFSRoute asPath locale = Returned current \<and>
         TreeState' =
           (\<lambda>r. if r = current \<and> r \<in> folder_routes dir then Some True else TreeState r)))"
proof -
  have effects: "commit_effects fsRoute dir TreeState =
     (\<lambda>r. if r = fsRoute \<and> r \<in> folder_routes dir then Some True else TreeState r)"
    for fsRoute
  proof (induction fsRoute dir TreeState rule: commit_effects.induct)
    case (1 fsRoute TreeState)
    show ?case by simp
  next
    case (2 fsRoute n r t dir TreeState)
    then show ?case by simp
  next
    case (3 fsRoute n r t cs dir TreeState)
    have "Folder_effect fsRoute (FolderItem n r t cs) (commit_effects fsRoute cs TreeState) =
        (\<lambda>q. if q = fsRoute \<and> q \<in> insert r (folder_routes cs) then Some True
             else TreeState q)"
      unfolding "3.IH"(1) by (auto simp: Folder_effect_def active_def)
    then show ?case
      unfolding commit_effects.simps "3.IH"(2) by auto
  qed
  have "\<exists>current. getFSRoute asPath locale = Returned current \<and>
         TreeState' =
           (\<lambda>r. if r = current \<and> r \<in> folder_routes dir then Some True else TreeState r)"
    if "navigate asPath locale dmc dir TreeState = Returned (rows, TreeState')"
  proof -
    from that obtain current where c: "getFSRoute asPath locale = Returned current"
      and "TreeState' = commit_effects current dir TreeState"
      by (auto simp: navigate_def split: outcome.splits)
    with effects [of current] show ?thesis by simp
  qed
  with effects show ?thesis by blast
qed

text \<open>
  The tree of the scenario: at \<^verbatim>\<open>/guides\<close> the entry of the folder becomes \<open>true\<close>, at
  \<^verbatim>\<open>/guides/intro\<close> it stays unset.
\<close>

theorem discovery_marks_exact_matches_witness:
  "commit_effects ''/guides''
     [FolderItem ''guides'' ''/guides'' ''Guides''
        [PageItem ''intro'' ''/guides/intro'' ''Intro'']] Map.empty ''/guides'' = Some True \<and>
   commit_effects ''/guides/intro''
     [FolderItem ''guides'' ''/guides'' ''Guides''
        [PageItem ''intro'' ''/guides/intro'' ''Intro'']] Map.empty ''/guides'' = None \<and>
   (\<exists>rows TreeState'.
      navigate ''/guides/index'' None False
        [FolderItem ''guides'' ''/guides'' ''Guides''
           [PageItem ''intro'' ''/guides/intro'' ''Intro'']] Map.empty
        = Returned (rows, TreeState') \<and>
      TreeState' ''/guides'' = Some True)"
proof -
  let ?dir = "[FolderItem ''guides'' ''/guides'' ''Guides''
        [PageItem ''intro'' ''/guides/intro'' ''Intro'']]"
  have g: "getFSRoute ''/guides/index'' None = Returned ''/guides''"
    by code_simp
  then obtain rows TreeState' where
    n: "navigate ''/guides/index'' None False ?dir Map.empty = Returned (rows, TreeState')"
    by (simp add: navigate_def)
  from discovery_marks_exact_matches
         [of "''/guides''" ?dir Map.empty "''/guides/index''" None False rows TreeState']
       discovery_marks_exact_matches
         [of "''/guides/intro''" ?dir Map.empty "''/guides/index''" None False rows TreeState']
       g n
  have "commit_effects ''/guides'' ?dir Map.empty ''/guides'' = Some True"
    and "commit_effects ''/guides/intro'' ?dir Map.empty ''/guides'' = None"
    and "TreeState' ''/guides'' = Some True"
    by simp_all
  with n show ?thesis by blast
qed

text \<open>
  Claim C1 as stated fails on its own scenario. At the canonical path
  \<^verbatim>\<open>/guides/intro\<close> and with an empty \<^verbatim>\<open>TreeState\<close>, the folder is rendered open, by
  the default, and the page as active, and the effects leave
  \<^verbatim>\<open>TreeState['/guides']\<close> unset.
\<close>

theorem discovery_ancestor_counterexample:
  "getFSRoute ''/guides/intro'' None = Returned ''/guides/intro'' \<and>
   active ''/guides/intro'' (PageItem ''intro'' ''/guides/intro'' ''Intro'') \<and>
   Menu ''/guides/intro'' False Map.empty 0
     [FolderItem ''guides'' ''/guides'' ''Guides''
        [PageItem ''intro'' ''/guides/intro'' ''Intro'']]
   = [FolderLi ''active'' (H5 ''Guides'') ''initial''
        [FileLi ''active'' ''/guides/intro'' ''Intro'']] \<and>
   commit_effects ''/guides/intro''
     [FolderItem ''guides'' ''/guides'' ''Guides''
        [PageItem ''intro'' ''/guides/intro'' ''Intro'']] Map.empty ''/guides'' = None"
  by code_simp

lemma Menu_titles:
  "rendered_titles (Menu fsRoute dmc TreeState depth dir) = titles_preorder dir"
proof (induction dir arbitrary: depth rule: count_items.induct)
  case 1
  show ?case by simp
next
  case (2 n r t dir)
  then show ?case by (simp add: File_def)
next
  case (3 n r t cs dir)
  then show ?case by (simp add: Let_def)
qed

lemma Menu_count:
  "count_li (Menu fsRoute dmc TreeState depth dir) = count_items dir"
proof (induction dir arbitrary: depth rule: count_items.induct)
  case 1
  show ?case by simp
next
  case (2 n r t dir)
  then show ?case by (simp add: File_def)
next
  case (3 n r t cs dir)
  then show ?case by (simp add: Let_def)
qed

text \<open>
  Claim C3, as amended. \<^verbatim>\<open>Menu\<close> renders the tree depth first, parents before their
  children and siblings in their order, and it renders every entry whatever the
  expansion state: a folder gives a list item with its heading whether it is open or
  not, and the list items of its children are rendered inside it in either case. The
  resolved \<^verbatim>\<open>open\<close> of a folder decides the class of its list item and the
  \<^verbatim>\<open>display\<close> style of the container of its children, which is \<^verbatim>\<open>none\<close> exactly
  when the folder is not open: the children of a closed folder are rendered and hidden,
  not left out.
\<close>

theorem Menu_renders_every_entry:
  "rendered_titles (Menu fsRoute dmc TreeState depth dir) = titles_preorder dir \<and>
   count_li (Menu fsRoute dmc TreeState depth dir) = count_items dir \<and>
   Menu fsRoute dmc TreeState depth (FolderItem n r t cs # dir) =
     FolderLi (if Folder_open TreeState dmc (FolderItem n r t cs) then ''active'' else [])
       (if 0 < depth
        then Button t (active fsRoute (FolderItem n r t cs))
               (Folder_open TreeState dmc (FolderItem n r t cs)) r
        else H5 t)
       (if Folder_open TreeState dmc (FolderItem n r t cs) then ''initial'' else ''none'')
       (Menu fsRoute dmc TreeState (Suc depth) cs)
     # Menu fsRoute dmc TreeState depth dir \<and>
   Menu fsRoute dmc TreeState depth (PageItem n r t # dir) =
     FileLi (if active fsRoute (PageItem n r t) then ''active'' else []) r t
     # Menu fsRoute dmc TreeState depth dir \<and>
   (display (Folder fsRoute dmc TreeState depth (FolderItem n r t cs)) = ''none'' \<longleftrightarrow>
      \<not> Folder_open TreeState dmc (FolderItem n r t cs))"
proof -
  have folder: "Menu fsRoute dmc TreeState depth (FolderItem n r t cs # dir) =
     FolderLi (if Folder_open TreeState dmc (FolderItem n r t cs) then ''active'' else [])
       (if 0 < depth
        then Button t (active fsRoute (FolderItem n r t cs))
               (Folder_open TreeState dmc (FolderItem n r t cs)) r
        else H5 t)
       (if Folder_open TreeState dmc (FolderItem n r t cs) then ''initial'' else ''none'')
       (Menu fsRoute dmc TreeState (Suc depth) cs)
     # Menu fsRoute dmc TreeState depth dir"
    by (simp add: Let_def)
  have page: "Menu fsRoute dmc TreeState depth (PageItem n r t # dir) =
     FileLi (if active fsRoute (PageItem n r t) then ''active'' else []) r t
     # Menu fsRoute dmc TreeState depth dir"
    by (simp add: File_def)
  have hidden: "display (Folder fsRoute dmc TreeState depth (FolderItem n r t cs)) = ''none''
      \<longleftrightarrow> \<not> Folder_open TreeState dmc (FolderItem n r t cs)"
    by (simp add: Let_def)
  from folder page hidden show ?thesis
    by (simp only: Menu_titles Menu_count simp_thms)
qed

text \<open>
  A collapsed folder followed by a page: three entries, three list items, in the order
  of the tree; the folder's child is rendered inside a container that is not
  displayed.
\<close>

theorem Menu_renders_every_entry_witness:
  "rendered_titles (Menu ''/other'' False [''/guides'' \<mapsto> False] 0
     [FolderItem ''guides'' ''/guides'' ''Guides''
        [PageItem ''intro'' ''/guides/intro'' ''Intro''],
      PageItem ''about'' ''/about'' ''About''])
   = [''Guides'', ''Intro'', ''About''] \<and>
   count_li (Menu ''/other'' False [''/guides'' \<mapsto> False] 0
     [FolderItem ''guides'' ''/guides'' ''Guides''
        [PageItem ''intro'' ''/guides/intro'' ''Intro''],
      PageItem ''about'' ''/about'' ''About'']) = 3 \<and>
   display (Folder ''/other'' False [''/guides'' \<mapsto> False] 0
     (FolderItem ''guides'' ''/guides'' ''Guides''
        [PageItem ''intro'' ''/guides/intro'' ''Intro''])) = ''none''"
proof -
  let ?kids = "[PageItem ''intro'' ''/guides/intro'' ''Intro'']"
  let ?dir = "[FolderItem ''guides'' ''/guides'' ''Guides'' ?kids,
      PageItem ''about'' ''/about'' ''About'']"
  have closed: "\<not> Folder_open [''/guides'' \<mapsto> False] False
      (FolderItem ''guides'' ''/guides'' ''Guides'' ?kids)"
    by (simp add: Folder_open_def)
  from Menu_renders_every_entry
         [of "''/other''" False "[''/guides'' \<mapsto> False]" 0 ?dir
             "''guides''" "''/guides''" "''Guides''" ?kids]
       closed
  show ?thesis by simp
qed

text \<open>
  Claim C3 as stated fails for a closed folder. With \<open>false\<close> stored for \<^verbatim>\<open>/guides\<close>
  the folder is not open, and the list item of its child is in what \<^verbatim>\<open>Menu\<close>
  returns, inside the container with \<^verbatim>\<open>display: none\<close>.
\<close>

theorem Menu_closed_folder_counterexample:
  "\<not> Folder_open [''/guides'' \<mapsto> False] False
       (FolderItem ''guides'' ''/guides'' ''Guides''
          [PageItem ''intro'' ''/guides/intro'' ''Intro'']) \<and>
   Menu ''/other'' False [''/guides'' \<mapsto> False] 0
     [FolderItem ''guides'' ''/guides'' ''Guides''
        [PageItem ''intro'' ''/guides/intro'' ''Intro'']]
   = [FolderLi [] (H5 ''Guides'') ''none''
        [FileLi [] ''/guides/intro'' ''Intro'']]"
  by (simp add: Folder_open_def Let_def File_def active_def)

text \<open>
  Claim C4, as amended. For every folder whose own route equals the current canonical
  path, a click on its heading changes nothing: \<^verbatim>\<open>TreeState\<close> and the component's
  state are the same before and after, whatever they are at the time of the click. A
  folder that contains the active page without having its route is not active, and
  this does not cover it.
\<close>

theorem toggle_active_noop:
  assumes "active fsRoute (FolderItem n r t cs)"
  shows "click (header (Folder fsRoute dmc Rendered depth (FolderItem n r t cs))) (TreeState, x)
           = (TreeState, x)"
proof (cases "0 < depth")
  case True
  with assms show ?thesis by (simp add: click_def Let_def)
next
  case False
  then show ?thesis by (simp add: click_def Let_def)
qed

text \<open>A folder at depth 1 whose route is the current path; its heading is a button.\<close>

theorem toggle_active_noop_witness:
  "active ''/guides'' (FolderItem ''guides'' ''/guides'' ''Guides'' []) \<and>
   onClick (header (Folder ''/guides'' False Map.empty 1
     (FolderItem ''guides'' ''/guides'' ''Guides'' []))) \<noteq> None \<and>
   click (header (Folder ''/guides'' False Map.empty 1
     (FolderItem ''guides'' ''/guides'' ''Guides'' []))) ([''/guides'' \<mapsto> True], False)
     = ([''/guides'' \<mapsto> True], False)"
proof -
  have a: "active ''/guides'' (FolderItem ''guides'' ''/guides'' ''Guides'' [])"
    by (simp add: active_def)
  have b: "onClick (header (Folder ''/guides'' False Map.empty 1
     (FolderItem ''guides'' ''/guides'' ''Guides'' []))) \<noteq> None"
    by (simp add: Let_def)
  from toggle_active_noop [OF a] a b show ?thesis by blast
qed

text \<open>
  Claim C4 as stated fails for the folder that contains the active page. With the page
  \<^verbatim>\<open>/docs/guides/intro\<close> active, a click on its parent folder \<^verbatim>\<open>/docs/guides\<close>, open
  by default at depth 1, stores \<open>false\<close> for the folder and flips the component's state.
\<close>

theorem toggle_containing_folder_counterexample:
  "active ''/docs/guides/intro'' (PageItem ''intro'' ''/docs/guides/intro'' ''Intro'') \<and>
   fst (click (header (Folder ''/docs/guides/intro'' False Map.empty 1
           (FolderItem ''guides'' ''/docs/guides'' ''Guides''
              [PageItem ''intro'' ''/docs/guides/intro'' ''Intro''])))
         (Map.empty, False)) ''/docs/guides'' = Some False \<and>
   snd (click (header (Folder ''/docs/guides/intro'' False Map.empty 1
           (FolderItem ''guides'' ''/docs/guides'' ''Guides''
              [PageItem ''intro'' ''/docs/guides/intro'' ''Intro''])))
         (Map.empty, False)) = True"
  by code_simp



text \<open>
  Claim C6, as amended. A toggle is a click on the folder's heading, handled by the
  closure of the folder's latest render. Only a folder below the top level is rendered
  with a button. For such a folder that is not active, \<open>Rendered\<close> is the \<^verbatim>\<open>TreeState\<close>
  that render read; the effects that follow it and clicks on folders with other routes
  leave the folder's own entry alone, so at the time of the click \<^verbatim>\<open>TreeState\<close> agrees
  with \<open>Rendered\<close> at the folder's route. The click stores the negation of the resolved
  \<^verbatim>\<open>open\<close> as an explicit entry, changes no other entry, and flips the component's
  state, which makes React render the folder again; a second click, on the button of
  that render, brings the resolved value back.
\<close>

theorem toggle_flips_resolved_state:
  assumes "\<not> active fsRoute item" and "item = FolderItem n r t cs" and "0 < depth"
    and "Rendered (route item) = TreeState (route item)"
    and "click (header (Folder fsRoute dmc Rendered depth item)) (TreeState, x)
           = (TreeState1, x1)"
    and "Rendered1 (route item) = TreeState1 (route item)"
    and "click (header (Folder fsRoute dmc Rendered1 depth item)) (TreeState1, x1)
           = (TreeState2, x2)"
  shows "Folder_open TreeState1 dmc item = (\<not> Folder_open TreeState dmc item) \<and>
         TreeState1 (route item) = Some (\<not> Folder_open TreeState dmc item) \<and>
         (\<forall>r'. r' \<noteq> route item \<longrightarrow> TreeState1 r' = TreeState r') \<and>
         x1 = (\<not> x) \<and>
         Folder_open TreeState2 dmc item = Folder_open TreeState dmc item"
proof -
  have same: "Folder_open Rendered dmc item = Folder_open TreeState dmc item"
    using assms(4) by (simp add: Folder_open_def)
  from assms(1,2,3,5) have first: "TreeState1 = TreeState(r \<mapsto> \<not> Folder_open Rendered dmc item)"
    and flag: "x1 = (\<not> x)"
    by (auto simp: click_def Let_def)
  from assms(2) first same
  have entry: "TreeState1 (route item) = Some (\<not> Folder_open TreeState dmc item)"
    by simp
  then have flipped: "Folder_open TreeState1 dmc item = (\<not> Folder_open TreeState dmc item)"
    by (simp add: Folder_open_def)
  from assms(2) first have others: "\<forall>r'. r' \<noteq> route item \<longrightarrow> TreeState1 r' = TreeState r'"
    by simp
  have same1: "Folder_open Rendered1 dmc item = Folder_open TreeState1 dmc item"
    using assms(6) by (simp add: Folder_open_def)
  from assms(1,2,3,7)
  have "TreeState2 = TreeState1(r \<mapsto> \<not> Folder_open Rendered1 dmc item)"
    by (auto simp: click_def Let_def)
  with assms(2) same1 flipped
  have "TreeState2 (route item) = Some (Folder_open TreeState dmc item)"
    by simp
  then have "Folder_open TreeState2 dmc item = Folder_open TreeState dmc item"
    by (simp add: Folder_open_def)
  with flipped entry others flag show ?thesis by blast
qed

text \<open>
  The folder \<^verbatim>\<open>/docs/guides\<close> at depth 1, away from the current path, with no entry
  and the default open: the first click collapses it, the second opens it again.
\<close>

theorem toggle_flips_resolved_state_witness:
  "\<not> active ''/other'' (FolderItem ''guides'' ''/docs/guides'' ''Guides'' []) \<and>
   click (header (Folder ''/other'' False Map.empty 1
       (FolderItem ''guides'' ''/docs/guides'' ''Guides'' []))) (Map.empty, False)
     = ([''/docs/guides'' \<mapsto> False], True) \<and>
   click (header (Folder ''/other'' False [''/docs/guides'' \<mapsto> False] 1
       (FolderItem ''guides'' ''/docs/guides'' ''Guides'' [])))
       ([''/docs/guides'' \<mapsto> False], True)
     = ([''/docs/guides'' \<mapsto> True], False) \<and>
   Folder_open Map.empty False (FolderItem ''guides'' ''/docs/guides'' ''Guides'' []) \<and>
   \<not> Folder_open [''/docs/guides'' \<mapsto> False] False
       (FolderItem ''guides'' ''/docs/guides'' ''Guides'' []) \<and>
   Folder_open [''/docs/guides'' \<mapsto> True] False
       (FolderItem ''guides'' ''/docs/guides'' ''Guides'' [])"
proof -
  let ?item = "FolderItem ''guides'' ''/docs/guides'' ''Guides'' []"
  let ?s1 = "[''/docs/guides'' \<mapsto> False]"
  let ?s2 = "[''/docs/guides'' \<mapsto> True]"
  have na: "\<not> active ''/other'' ?item" by (simp add: active_def)
  have d: "(0::nat) < 1" by simp
  have r1: "click (header (Folder ''/other'' False Map.empty 1 ?item)) (Map.empty, False)
      = (?s1, True)"
    by (simp add: click_def Let_def Folder_open_def active_def)
  have r2: "click (header (Folder ''/other'' False ?s1 1 ?item)) (?s1, True) = (?s2, False)"
    by (simp add: click_def Let_def Folder_open_def active_def)
  from toggle_flips_resolved_state [OF na refl d refl r1 refl r2] na r1 r2
  show ?thesis by (simp add: Folder_open_def)
qed

text \<open>
  Claim C6 as stated fails for a folder at the top level, such as the folder of the
  specification's scenario. Its heading is an \<^verbatim>\<open>h5\<close> without a handler: a click on it
  writes no entry, and the folder, away from the current path and open by default,
  resolves to open as before.
\<close>

theorem toggle_top_level_counterexample:
  "\<not> active ''/other'' (FolderItem ''guides'' ''/guides'' ''Guides''
       [PageItem ''intro'' ''/guides/intro'' ''Intro'']) \<and>
   onClick (header (Folder ''/other'' False Map.empty 0
       (FolderItem ''guides'' ''/guides'' ''Guides''
          [PageItem ''intro'' ''/guides/intro'' ''Intro'']))) = None \<and>
   fst (click (header (Folder ''/other'' False Map.empty 0
       (FolderItem ''guides'' ''/guides'' ''Guides''
          [PageItem ''intro'' ''/guides/intro'' ''Intro''])))
     (Map.empty, False)) ''/guides'' = None \<and>
   Folder_open (fst (click (header (Folder ''/other'' False Map.empty 0
       (FolderItem ''guides'' ''/guides'' ''Guides''
          [PageItem ''intro'' ''/guides/intro'' ''Intro''])))
     (Map.empty, False))) False
     (FolderItem ''guides'' ''/guides'' ''Guides''
        [PageItem ''intro'' ''/guides/intro'' ''Intro''])
   = Folder_open Map.empty False
       (FolderItem ''guides'' ''/guides'' ''Guides''
          [PageItem ''intro'' ''/guides/intro'' ''Intro''])"
  by (simp add: active_def click_def Folder_open_def)

text \<open>
  Claim C7. An effect writes nothing but \<open>true\<close>. After the effects of a tree an entry is
  \<open>false\<close> only if it was \<open>false\<close> before, an entry that was \<open>true\<close> is still \<open>true\<close>, and
  a folder that resolved to open, by its entry or by the default, still does. This holds
  from every \<^verbatim>\<open>TreeState\<close>, the reachable ones among them.
\<close>

theorem discovery_never_collapses:
  "(Folder_effect fsRoute item TreeState r = Some False \<longrightarrow> TreeState r = Some False) \<and>
   (commit_effects fsRoute dir TreeState r = Some False \<longrightarrow> TreeState r = Some False) \<and>
   (TreeState r = Some True \<longrightarrow> commit_effects fsRoute dir TreeState r = Some True) \<and>
   (Folder_open TreeState dmc item \<longrightarrow>
      Folder_open (commit_effects fsRoute dir TreeState) dmc item) \<and>
   (navigate asPath locale dmc' dir TreeState = Returned (rows, TreeState') \<longrightarrow>
      (TreeState' r = Some False \<longrightarrow> TreeState r = Some False) \<and>
      (Folder_open TreeState dmc item \<longrightarrow> Folder_open TreeState' dmc item))"
proof -
  have one: "Folder_effect fsRoute item TreeState r = Some False \<longrightarrow> TreeState r = Some False"
    by (simp add: Folder_effect_def)
  have at_r: "commit_effects fsRoute dir TreeState r = TreeState r \<or>
      commit_effects fsRoute dir TreeState r = Some True"
    by (rule commit_effects_cases)
  have at_item: "commit_effects fsRoute dir TreeState (route item) = TreeState (route item) \<or>
      commit_effects fsRoute dir TreeState (route item) = Some True"
    by (rule commit_effects_cases)
  from at_item have opened: "Folder_open TreeState dmc item \<longrightarrow>
      Folder_open (commit_effects fsRoute dir TreeState) dmc item"
    by (auto simp: Folder_open_def)
  have "(TreeState' r = Some False \<longrightarrow> TreeState r = Some False) \<and>
      (Folder_open TreeState dmc item \<longrightarrow> Folder_open TreeState' dmc item)"
    if "navigate asPath locale dmc' dir TreeState = Returned (rows, TreeState')"
  proof -
    from that obtain current where "TreeState' = commit_effects current dir TreeState"
      by (auto simp: navigate_def split: outcome.splits)
    moreover have "commit_effects current dir TreeState q = TreeState q \<or>
        commit_effects current dir TreeState q = Some True" for q
      by (rule commit_effects_cases)
    ultimately have "TreeState' q = TreeState q \<or> TreeState' q = Some True" for q
      by simp
    from this [of r] this [of "route item"] show ?thesis
      by (auto simp: Folder_open_def)
  qed
  with one at_r opened show ?thesis by auto
qed

text \<open>
  A collapsed folder that becomes active is expanded; an expanded sibling stays
  expanded.
\<close>

theorem discovery_never_collapses_witness:
  "commit_effects ''/a''
     [FolderItem ''a'' ''/a'' ''A'' [], FolderItem ''b'' ''/b'' ''B'' []]
     [''/a'' \<mapsto> False, ''/b'' \<mapsto> True] ''/a'' = Some True \<and>
   commit_effects ''/a''
     [FolderItem ''a'' ''/a'' ''A'' [], FolderItem ''b'' ''/b'' ''B'' []]
     [''/a'' \<mapsto> False, ''/b'' \<mapsto> True] ''/b'' = Some True \<and>
   Folder_open (commit_effects ''/a''
     [FolderItem ''a'' ''/a'' ''A'' [], FolderItem ''b'' ''/b'' ''B'' []]
     [''/a'' \<mapsto> False, ''/b'' \<mapsto> True]) False (FolderItem ''b'' ''/b'' ''B'' [])"
proof -
  let ?dir = "[FolderItem ''a'' ''/a'' ''A'' [], FolderItem ''b'' ''/b'' ''B'' []]"
  let ?s = "[''/a'' \<mapsto> False, ''/b'' \<mapsto> True]"
  have a: "commit_effects ''/a'' ?dir ?s ''/a'' = Some True"
    by (simp add: Folder_effect_def active_def)
  have b: "?s ''/b'' = Some True" by simp
  have c: "Folder_open ?s False (FolderItem ''b'' ''/b'' ''B'' [])"
    by (simp add: Folder_open_def)
  from discovery_never_collapses
         [of "''/a''" "FolderItem ''b'' ''/b'' ''B'' []" ?s "''/b''" ?dir False] a b c
  show ?thesis by blast
qed

section \<open>The claim about \<^verbatim>\<open>hasSortableData\<close>\<close>

lemma and_then_Returned: "and_then (Returned a) (Returned b) = Returned (a \<and> b)"
  by (cases a) auto

lemma guard_on_object:
  "and_then (Returned (typeof (JObject ps) = ''object''))
     (and_then (js_in ''containerId'' (JObject ps))
       (and_then (js_in ''items'' (JObject ps)) (js_in ''index'' (JObject ps)))) =
   Returned (''containerId'' \<in> fst ` set ps \<and> ''items'' \<in> fst ` set ps \<and>
             ''index'' \<in> fst ` set ps)"
  by (simp add: map_of_eq_None_iff and_then_Returned del: and_then.simps)

lemma guard_on_other:
  assumes "v \<noteq> JNull" and "\<forall>ps. v \<noteq> JObject ps"
  shows "and_then (Returned (typeof v = ''object'')) rhs = Returned False"
  using assms by (cases v) auto

text \<open>
  Without the restriction of the claim the guard can throw: \<^verbatim>\<open>typeof null\<close> is
  \<^verbatim>\<open>'object'\<close>, and \<^verbatim>\<open>in\<close> rejects \<^verbatim>\<open>null\<close>.
\<close>

lemma hasSortableData_null_sortable:
  "hasSortableData (Value \<lparr>data = \<lparr>current = Some [(''sortable'', JNull)]\<rparr>\<rparr>)
     = Thrown TypeError"
  by code_simp

text \<open>
  Claim C10. Let the \<^verbatim>\<open>sortable\<close> property of \<^verbatim>\<open>entry.data.current\<close>, when present,
  not be \<^verbatim>\<open>null\<close>. Then \<^verbatim>\<open>hasSortableData\<close> returns \<open>false\<close> for \<^verbatim>\<open>null\<close> and
  \<^verbatim>\<open>undefined\<close>, for an entry whose \<^verbatim>\<open>data.current\<close> is absent, and for one without
  the key \<^verbatim>\<open>sortable\<close>; and it returns \<open>true\<close> exactly when the value of \<^verbatim>\<open>sortable\<close>
  is an object on which the keys \<^verbatim>\<open>containerId\<close>, \<^verbatim>\<open>items\<close> and \<^verbatim>\<open>index\<close> are
  found. The result depends on the presence of the three keys only, not on their
  values.
\<close>

theorem hasSortableData_checks_key_presence:
  assumes "\<forall>e d. entry = Value e \<and> current (data e) = Some d \<longrightarrow>
             map_of d ''sortable'' \<noteq> Some JNull"
  shows "(entry = Null \<or> entry = Undefined \<longrightarrow> hasSortableData entry = Returned False) \<and>
         (\<forall>e. entry = Value e \<and> current (data e) = None \<longrightarrow>
              hasSortableData entry = Returned False) \<and>
         (\<forall>e d. entry = Value e \<and> current (data e) = Some d \<and> ''sortable'' \<notin> fst ` set d \<longrightarrow>
              hasSortableData entry = Returned False) \<and>
         hasSortableData entry =
           Returned (\<exists>e d ps. entry = Value e \<and> current (data e) = Some d \<and>
                      map_of d ''sortable'' = Some (JObject ps) \<and>
                      ''containerId'' \<in> fst ` set ps \<and> ''items'' \<in> fst ` set ps \<and>
                      ''index'' \<in> fst ` set ps)"
proof -
  have main: "hasSortableData entry =
           Returned (\<exists>e d ps. entry = Value e \<and> current (data e) = Some d \<and>
                      map_of d ''sortable'' = Some (JObject ps) \<and>
                      ''containerId'' \<in> fst ` set ps \<and> ''items'' \<in> fst ` set ps \<and>
                      ''index'' \<in> fst ` set ps)"
  proof (cases entry)
    case Null
    then show ?thesis by (simp add: hasSortableData_def)
  next
    case Undefined
    then show ?thesis by (simp add: hasSortableData_def)
  next
    case (Value e)
    show ?thesis
    proof (cases "current (data e)")
      case None
      with Value show ?thesis by (simp add: hasSortableData_def)
    next
      case (Some d)
      show ?thesis
      proof (cases "map_of d ''sortable''")
        case None
        with Value Some show ?thesis by (simp add: hasSortableData_def)
      next
        case s: (Some v)
        from assms Value Some s have nn: "v \<noteq> JNull" by auto
        show ?thesis
        proof (cases "\<exists>ps. v = JObject ps")
          case True
          then obtain ps where "v = JObject ps" ..
          with Value Some s show ?thesis
            by (simp add: hasSortableData_def guard_on_object
                del: and_then.simps js_in.simps typeof.simps)
        next
          case False
          then have "\<forall>ps. v \<noteq> JObject ps" by simp
          with nn Value Some s False show ?thesis
            by (simp add: hasSortableData_def guard_on_other del: and_then.simps)
        qed
      qed
    qed
  qed
  have absent: "hasSortableData entry = Returned False"
    if "entry = Value e" "current (data e) = Some d" "''sortable'' \<notin> fst ` set d" for e d
  proof -
    from that(3) have "map_of d ''sortable'' = None" by (simp add: map_of_eq_None_iff)
    with that(1,2) show ?thesis by (simp add: hasSortableData_def)
  qed
  show ?thesis
    using main absent by (auto simp: hasSortableData_def)
qed

text \<open>
  An entry whose \<^verbatim>\<open>sortable\<close> has the three keys, with values of no particular type,
  and one that lacks \<^verbatim>\<open>index\<close>.
\<close>

theorem hasSortableData_checks_key_presence_witness:
  "hasSortableData (Value \<lparr>data = \<lparr>current = Some [(''sortable'',
       JObject [(''containerId'', JString ''list''), (''items'', JNull),
                (''index'', JUndefined)])]\<rparr>\<rparr>) = Returned True \<and>
   hasSortableData (Value \<lparr>data = \<lparr>current = Some [(''sortable'',
       JObject [(''containerId'', JString ''list''), (''items'', JNull)])]\<rparr>\<rparr>)
     = Returned False"
proof -
  let ?a = "Value \<lparr>data = \<lparr>current = Some [(''sortable'',
       JObject [(''containerId'', JString ''list''), (''items'', JNull),
                (''index'', JUndefined)])]\<rparr>\<rparr>"
  let ?b = "Value \<lparr>data = \<lparr>current = Some [(''sortable'',
       JObject [(''containerId'', JString ''list''), (''items'', JNull)])]\<rparr>\<rparr>"
  have ha: "\<forall>e d. ?a = Value e \<and> current (data e) = Some d \<longrightarrow>
             map_of d ''sortable'' \<noteq> Some JNull" by auto
  have hb: "\<forall>e d. ?b = Value e \<and> current (data e) = Some d \<longrightarrow>
             map_of d ''sortable'' \<noteq> Some JNull" by auto
  from hasSortableData_checks_key_presence [OF ha] hasSortableData_checks_key_presence [OF hb]
  show ?thesis by simp
qed

end
